theory Spec2Isabelle
  imports Complex_Main "HOL-Library.Sublist"
begin

section \<open>Python numbers: unbounded integers and IEEE-754 doubles\<close>

text \<open>
  The negotiation code mixes Python integers with float literals: \<open>int(fair * 0.58)\<close>
  converts the integer to a double, multiplies two doubles (round to nearest, ties to
  even) and truncates the product towards zero. The results differ from exact decimal
  arithmetic (\<open>int(194400 * 0.58)\<close> is 112751), so doubles are modelled exactly:
  a finite double is a sign, a mantissa and a binary exponent, standing for
  \<open>(-1)^s * m * 2^e\<close>, and every operation is the exact result rounded once.
  The exceptions that the arithmetic can raise are values of type \<open>error\<close>.
\<close>

datatype error = OverflowError | ZeroDivisionError | ValueError | TypeError

datatype double = Finite bool nat int | Infinite bool | NaN

fun bitlen :: "nat \<Rightarrow> nat" where
  "bitlen n = (if n = 0 then 0 else Suc (bitlen (n div 2)))"

declare bitlen.simps [simp del]

definition round_half_even :: "nat \<Rightarrow> nat \<Rightarrow> nat" where
  \<comment> \<open>the integer nearest to \<open>n / d\<close>, a tie going to the even neighbour\<close>
  "round_half_even n d =
     (let q = n div d; r = n mod d
      in if 2 * r < d then q else if d < 2 * r then q + 1
         else if even q then q else q + 1)"

definition floor_log2 :: "nat \<Rightarrow> nat \<Rightarrow> int" where
  \<comment> \<open>for positive \<open>n\<close> and \<open>d\<close>: the \<open>k\<close> with \<open>2^k \<le> n / d < 2^(k+1)\<close>\<close>
  "floor_log2 n d =
     (let l = int (bitlen n) - int (bitlen d)
      in if (if 0 \<le> l then d * 2 ^ nat l \<le> n else d \<le> n * 2 ^ nat (- l))
         then l else l - 1)"

definition round_to_double :: "bool \<Rightarrow> nat \<Rightarrow> nat \<Rightarrow> double" where
  \<comment> \<open>the double nearest to \<open>(-1)^s * n / d\<close> (\<open>d\<close> positive): 53 significant bits,
      exponents from -1074 (subnormals) to 971, overflow to infinity\<close>
  "round_to_double s n d =
     (if n = 0 then Finite s 0 0
      else let e = max (floor_log2 n d - 52) (- 1074);
               m = (if 0 \<le> e then round_half_even n (d * 2 ^ nat e)
                    else round_half_even (n * 2 ^ nat (- e)) d)
           in if 971 < e \<or> (e = 971 \<and> 2 ^ 53 \<le> m) then Infinite s else Finite s m e)"

definition float_literal :: "nat \<Rightarrow> nat \<Rightarrow> double" where
  \<comment> \<open>a decimal literal \<open>n / d\<close> of the source, read as the nearest double\<close>
  "float_literal n d = round_to_double False n d"

definition float_of_int :: "int \<Rightarrow> error + double" where
  \<comment> \<open>the implicit conversion in \<open>i * 0.58\<close>; Python raises OverflowError beyond the doubles\<close>
  "float_of_int i =
     (case round_to_double (i < 0) (nat \<bar>i\<bar>) 1 of
        Infinite s \<Rightarrow> Inl OverflowError
      | x \<Rightarrow> Inr x)"

fun float_mul :: "double \<Rightarrow> double \<Rightarrow> double" where
  "float_mul (Finite s1 m1 e1) (Finite s2 m2 e2) =
     (if 0 \<le> e1 + e2 then round_to_double (s1 \<noteq> s2) (m1 * m2 * 2 ^ nat (e1 + e2)) 1
      else round_to_double (s1 \<noteq> s2) (m1 * m2) (2 ^ nat (- (e1 + e2))))"
| "float_mul (Finite s1 m1 e1) (Infinite s2) = (if m1 = 0 then NaN else Infinite (s1 \<noteq> s2))"
| "float_mul (Infinite s1) (Finite s2 m2 e2) = (if m2 = 0 then NaN else Infinite (s1 \<noteq> s2))"
| "float_mul (Infinite s1) (Infinite s2) = Infinite (s1 \<noteq> s2)"
| "float_mul NaN y = NaN"
| "float_mul x NaN = NaN"

fun int_of_double :: "double \<Rightarrow> error + int" where
  \<comment> \<open>Python's \<open>int(x)\<close> on a float: truncation towards zero\<close>
  "int_of_double (Finite s m e) =
     (let a = (if 0 \<le> e then int m * 2 ^ nat e else int m div 2 ^ nat (- e))
      in Inr (if s then - a else a))"
| "int_of_double (Infinite s) = Inl OverflowError"
| "int_of_double NaN = Inl ValueError"

fun int_ge_double :: "int \<Rightarrow> double \<Rightarrow> bool" where
  \<comment> \<open>\<open>i >= x\<close> for an integer and a float; Python compares the exact values\<close>
  "int_ge_double i (Finite s m e) =
     (let v = (if s then - int m else int m)
      in if 0 \<le> e then v * 2 ^ nat e \<le> i else v \<le> i * 2 ^ nat (- e))"
| "int_ge_double i (Infinite s) = s"
| "int_ge_double i NaN = False"

definition int_truediv :: "int \<Rightarrow> int \<Rightarrow> error + double" where
  \<comment> \<open>\<open>a / b\<close> on two integers: the correctly rounded quotient\<close>
  "int_truediv a b =
     (if b = 0 then Inl ZeroDivisionError
      else case round_to_double ((a < 0) \<noteq> (b < 0)) (nat \<bar>a\<bar>) (nat \<bar>b\<bar>) of
             Infinite s \<Rightarrow> Inl OverflowError
           | x \<Rightarrow> Inr x)"

definition int_times :: "int \<Rightarrow> double \<Rightarrow> error + int" where
  \<comment> \<open>the idiom \<open>int(i * c)\<close> for an integer \<open>i\<close> and a float \<open>c\<close>\<close>
  "int_times i c =
     (case float_of_int i of
        Inl err \<Rightarrow> Inl err
      | Inr x \<Rightarrow> int_of_double (float_mul x c))"

fun mag :: "double \<Rightarrow> real" where
  \<comment> \<open>the absolute value of a finite double, as a real number (used in the proofs only)\<close>
  "mag (Finite s m e) = real m * 2 powi e"
| "mag (Infinite s) = 0"
| "mag NaN = 0"

definition float_times_int :: "double \<Rightarrow> int \<Rightarrow> error + double" where
  \<comment> \<open>\<open>x * i\<close> for a float \<open>x\<close> and an integer \<open>i\<close>\<close>
  "float_times_int x i =
     (case float_of_int i of
        Inl err \<Rightarrow> Inl err
      | Inr y \<Rightarrow> Inr (float_mul x y))"

definition ebind :: "error + 'a \<Rightarrow> ('a \<Rightarrow> error + 'b) \<Rightarrow> error + 'b" where
  \<comment> \<open>sequencing: an exception of the first computation ends the whole\<close>
  "ebind r f = (case r of Inl err \<Rightarrow> Inl err | Inr v \<Rightarrow> f v)"

section \<open>Python strings\<close>

text \<open>
  Strings are lists of code points below 256. \<open>isspace\<close> lists the code points that
  \<open>str.strip()\<close> removes, \<open>lower_char\<close> is \<open>str.lower()\<close> on one code point, and
  \<open>str_in w s\<close> is the substring test \<open>w in s\<close>.
\<close>

definition isspace :: "char \<Rightarrow> bool" where
  "isspace c =
     (let n = (of_char c :: nat)
      in (9 \<le> n \<and> n \<le> 13) \<or> (28 \<le> n \<and> n \<le> 32) \<or> n = 133 \<or> n = 160)"

definition strip :: "string \<Rightarrow> string" where
  "strip s = rev (dropWhile isspace (rev (dropWhile isspace s)))"

definition lower_char :: "char \<Rightarrow> char" where
  "lower_char c =
     (let n = (of_char c :: nat)
      in if (65 \<le> n \<and> n \<le> 90) \<or> (192 \<le> n \<and> n \<le> 222 \<and> n \<noteq> 215)
         then char_of (n + 32) else c)"

definition lower :: "string \<Rightarrow> string" where
  "lower s = map lower_char s"

fun str_in :: "string \<Rightarrow> string \<Rightarrow> bool" where
  "str_in w [] = (w = [])"
| "str_in w (c # cs) = (prefix w (c # cs) \<or> str_in w cs)"

section \<open>The data model\<close>

record Product =
  name :: string
  category :: string
  quantity :: int
  quality_grade :: string
  origin :: string
  base_market_price :: int
  attributes :: "(string \<times> string) list"

datatype DealStatus = ONGOING | ACCEPTED | REJECTED | TIMEOUT

text \<open>
  The messages are templated text that no decision reads. A message is modelled as
  its template and the values the template prints.
\<close>

datatype message =
    BuyerOpening int
  | BuyerAccept int
  | BuyerCeiling int
  | BuyerTooHigh int
  | SellerOpening string string int
  | SellerDeal int
  | SellerFinal int
  | SellerCounter int
  | OtherText string

datatype role = Seller | Buyer

record NegotiationContext =
  product :: Product
  your_budget :: int
  current_round :: int
  seller_offers :: "int list"
  your_offers :: "int list"
  messages :: "(role \<times> message) list"

text \<open>
  \<open>BaseBuyerAgent\<close> is the abstract interface the orchestrator calls: the two
  decision methods of a buyer. A method may raise, so it returns \<open>error + result\<close>.
\<close>

record BaseBuyerAgent =
  opening_method :: "NegotiationContext \<Rightarrow> error + int \<times> message"
  respond_method :: "NegotiationContext \<Rightarrow> int \<Rightarrow> message \<Rightarrow> error + DealStatus \<times> int \<times> message"

section \<open>YourBuyerAgent\<close>

definition calculate_fair_price :: "Product \<Rightarrow> error + int" where
  "calculate_fair_price p =
     (let fair = base_market_price p;
          grade = lower (strip (quality_grade p))
      in ebind (if str_in ''export'' grade then int_times fair (float_literal 110 100)
                else if grade = ''b'' then int_times fair (float_literal 90 100)
                else Inr fair)
         (\<lambda>fair.
            let origin_l = lower (strip (origin p));
                name_lower = lower (strip (name p))
            in if str_in ''ratnagiri'' origin_l \<and> str_in ''alphonso'' name_lower
               then int_times fair (float_literal 108 100)
               else Inr fair))"

definition generate_opening_offer :: "NegotiationContext \<Rightarrow> error + int \<times> message" where
  "generate_opening_offer context =
     ebind (calculate_fair_price (product context)) (\<lambda>fair.
     ebind (int_times fair (float_literal 58 100)) (\<lambda>opening_price.
     let opening_price = min opening_price (your_budget context)
     in ebind (int_times (base_market_price (product context)) (float_literal 40 100)) (\<lambda>floor_price.
        let opening_price = max opening_price floor_price
        in Inr (opening_price, BuyerOpening opening_price))))"

definition buyer_counter :: "int \<Rightarrow> int \<Rightarrow> int \<Rightarrow> error + int" where
  \<comment> \<open>the round-dependent counter of \<open>respond_to_seller_offer\<close>, before it is clamped\<close>
  "buyer_counter round_num last_offer seller_price =
     (if round_num \<le> 3 then
        ebind (int_times seller_price (float_literal 80 100)) (\<lambda>target.
        ebind (int_times last_offer (float_literal 105 100)) (\<lambda>raised.
        Inr (max raised target)))
      else if round_num \<le> 7 then
        ebind (int_times seller_price (float_literal 85 100)) (\<lambda>target.
        ebind (int_times last_offer (float_literal 107 100)) (\<lambda>raised.
        Inr (max raised target)))
      else ebind (int_truediv (last_offer + seller_price) 2) int_of_double)"

definition respond_to_seller_offer ::
  "NegotiationContext \<Rightarrow> int \<Rightarrow> message \<Rightarrow> error + DealStatus \<times> int \<times> message" where
  "respond_to_seller_offer context seller_price seller_message =
     ebind (calculate_fair_price (product context)) (\<lambda>fair.
     ebind (int_times fair (float_literal 88 100)) (\<lambda>ceiling.
     let max_willing = min (your_budget context) ceiling
     in if seller_price \<le> max_willing
        then Inr (ACCEPTED, seller_price, BuyerAccept seller_price)
        else
          ebind (if your_offers context \<noteq> [] then Inr (last (your_offers context))
                 else int_times fair (float_literal 58 100)) (\<lambda>last_offer.
          let round_num = current_round context
          in ebind (buyer_counter round_num last_offer seller_price) (\<lambda>counter.
             let counter = min counter max_willing
             in ebind (int_times fair (float_literal 2 1000)) (\<lambda>step.
                let counter = max counter (last_offer + max 1 step)
                in ebind (int_times (base_market_price (product context)) (float_literal 15 10)) (\<lambda>outrageous.
                   ebind (if outrageous \<le> seller_price \<and> round_num \<le> 2
                          then ebind (int_times fair (float_literal 70 100)) (\<lambda>anchor.
                               Inr (min counter anchor))
                          else Inr counter) (\<lambda>counter.
                   if max_willing \<le> counter \<and> max_willing < seller_price
                   then Inr (ONGOING, counter, BuyerCeiling counter)
                   else Inr (ONGOING, counter, BuyerTooHigh counter))))))))"

definition YourBuyerAgent :: BaseBuyerAgent where
  "YourBuyerAgent =
     \<lparr>opening_method = generate_opening_offer, respond_method = respond_to_seller_offer\<rparr>"

section \<open>MockSellerAgent\<close>

record MockSellerAgent =
  min_price :: int
  personality :: string

definition get_opening_price :: "MockSellerAgent \<Rightarrow> Product \<Rightarrow> error + int \<times> message" where
  "get_opening_price seller p =
     ebind (int_times (base_market_price p) (float_literal 15 10)) (\<lambda>price.
     Inr (price, SellerOpening (quality_grade p) (name p) price))"

definition respond_to_buyer ::
  "MockSellerAgent \<Rightarrow> int \<Rightarrow> int \<Rightarrow> error + int \<times> message \<times> bool" where
  "respond_to_buyer seller buyer_offer round_num =
     ebind (float_of_int (min_price seller)) (\<lambda>m.
     if int_ge_double buyer_offer (float_mul m (float_literal 11 10))
     then Inr (buyer_offer, SellerDeal buyer_offer, True)
     else if 8 \<le> round_num then
       ebind (int_times buyer_offer (float_literal 105 100)) (\<lambda>raised.
       let counter = max (min_price seller) raised
       in Inr (counter, SellerFinal counter, False))
     else
       ebind (int_times buyer_offer (float_literal 115 100)) (\<lambda>raised.
       let counter = max (min_price seller) raised
       in Inr (counter, SellerCounter counter, False)))"

section \<open>The orchestrator\<close>

text \<open>
  The local variables of \<open>run_negotiation_test\<close> that the loop changes. An iteration
  returns the new state and whether it left the loop with \<open>break\<close>.
\<close>

record loop_state =
  ctx :: NegotiationContext
  seller_price :: int
  seller_msg :: message
  loop_deal_made :: bool
  loop_final_price :: "int option"

definition round_body ::
  "BaseBuyerAgent \<Rightarrow> MockSellerAgent \<Rightarrow> int \<Rightarrow> loop_state \<Rightarrow> error + bool \<times> loop_state" where
  "round_body buyer_agent seller round_num st =
     (let c1 = (ctx st)\<lparr>current_round := round_num + 1\<rparr>
      in ebind (if round_num = 0
                then ebind (opening_method buyer_agent c1) (\<lambda>(buyer_offer, buyer_msg).
                     Inr (ONGOING, buyer_offer, buyer_msg))
                else respond_method buyer_agent c1 (seller_price st) (seller_msg st))
         (\<lambda>(status, buyer_offer, buyer_msg).
            let c2 = c1\<lparr>your_offers := your_offers c1 @ [buyer_offer],
                        messages := messages c1 @ [(Buyer, buyer_msg)]\<rparr>
            in if status = ACCEPTED
               then Inr (True, st\<lparr>ctx := c2, loop_deal_made := True,
                                   loop_final_price := Some (seller_price st)\<rparr>)
               else ebind (respond_to_buyer seller buyer_offer round_num)
                      (\<lambda>(new_price, new_msg, seller_accepts).
                         if seller_accepts
                         then Inr (True,
                                st\<lparr>ctx := c2\<lparr>messages := messages c2 @ [(Seller, new_msg)]\<rparr>,
                                   seller_price := new_price, seller_msg := new_msg,
                                   loop_deal_made := True,
                                   loop_final_price := Some buyer_offer\<rparr>)
                         else Inr (False,
                                st\<lparr>ctx := c2\<lparr>seller_offers := seller_offers c2 @ [new_price],
                                                  messages := messages c2 @ [(Seller, new_msg)]\<rparr>,
                                   seller_price := new_price, seller_msg := new_msg\<rparr>))))"

fun negotiation_loop ::
  "BaseBuyerAgent \<Rightarrow> MockSellerAgent \<Rightarrow> int list \<Rightarrow> loop_state \<Rightarrow> error + loop_state" where
  "negotiation_loop buyer_agent seller [] st = Inr st"
| "negotiation_loop buyer_agent seller (round_num # rest) st =
     (case round_body buyer_agent seller round_num st of
        Inl err \<Rightarrow> Inl err
      | Inr (stop, st') \<Rightarrow>
          if stop then Inr st' else negotiation_loop buyer_agent seller rest st')"

definition range :: "nat \<Rightarrow> int list" where
  "range n = map int [0..<n]"

datatype number = IntNum int | FloatNum double

record outcome =
  deal_made :: bool
  final_price :: "int option"
  rounds :: int
  savings :: int
  savings_pct :: number
  below_market_pct :: number
  conversation :: "(role \<times> message) list"

definition percent_of :: "int option \<Rightarrow> int \<Rightarrow> error + number" where
  \<comment> \<open>\<open>(whole - final_price) / whole * 100\<close>\<close>
  "percent_of fp whole =
     (case fp of
        None \<Rightarrow> Inl TypeError
      | Some price \<Rightarrow>
          ebind (int_truediv (whole - price) whole) (\<lambda>q.
          ebind (float_times_int q 100) (\<lambda>pct. Inr (FloatNum pct))))"

definition make_result :: "Product \<Rightarrow> int \<Rightarrow> loop_state \<Rightarrow> error + outcome" where
  "make_result p buyer_budget st =
     ebind (if loop_deal_made st
            then (case loop_final_price st of
                    None \<Rightarrow> Inl TypeError
                  | Some price \<Rightarrow> Inr (buyer_budget - price))
            else Inr 0) (\<lambda>sav.
     ebind (if loop_deal_made st then percent_of (loop_final_price st) buyer_budget
            else Inr (IntNum 0)) (\<lambda>sav_pct.
     ebind (if loop_deal_made st then percent_of (loop_final_price st) (base_market_price p)
            else Inr (IntNum 0)) (\<lambda>below_pct.
     Inr \<lparr>deal_made = loop_deal_made st,
          final_price = loop_final_price st,
          rounds = current_round (ctx st),
          savings = sav,
          savings_pct = sav_pct,
          below_market_pct = below_pct,
          conversation = messages (ctx st)\<rparr>)))"

definition run_negotiation_test ::
  "BaseBuyerAgent \<Rightarrow> Product \<Rightarrow> int \<Rightarrow> int \<Rightarrow> error + outcome" where
  "run_negotiation_test buyer_agent p buyer_budget seller_min =
     (let seller = \<lparr>min_price = seller_min, personality = ''standard''\<rparr>;
          c0 = \<lparr>product = p, your_budget = buyer_budget, current_round = 0,
                seller_offers = [], your_offers = [], messages = []\<rparr>
      in ebind (get_opening_price seller p) (\<lambda>(price, msg).
         let c1 = c0\<lparr>seller_offers := seller_offers c0 @ [price],
                     messages := messages c0 @ [(Seller, msg)]\<rparr>
         in ebind (negotiation_loop buyer_agent seller (range 10)
                     \<lparr>ctx = c1, seller_price = price, seller_msg = msg,
                      loop_deal_made = False, loop_final_price = None\<rparr>)
              (make_result p buyer_budget)))"

section \<open>The sample products of the test harness\<close>

definition alphonso_mangoes :: Product where
  "alphonso_mangoes =
     \<lparr>name = ''Alphonso Mangoes'', category = ''Mangoes'', quantity = 100,
      quality_grade = ''A'', origin = ''Ratnagiri'', base_market_price = 180000,
      attributes = [(''ripeness'', ''optimal''), (''export_grade'', ''True'')]\<rparr>"

definition kesar_mangoes :: Product where
  "kesar_mangoes =
     \<lparr>name = ''Kesar Mangoes'', category = ''Mangoes'', quantity = 150,
      quality_grade = ''B'', origin = ''Gujarat'', base_market_price = 150000,
      attributes = [(''ripeness'', ''semi-ripe''), (''export_grade'', ''False'')]\<rparr>"

definition start_context :: "Product \<Rightarrow> int \<Rightarrow> int \<Rightarrow> int list \<Rightarrow> NegotiationContext" where
  \<comment> \<open>a context with the given budget, round and buyer offers, and no other history\<close>
  "start_context p budget round_num offers =
     \<lparr>product = p, your_budget = budget, current_round = round_num,
      seller_offers = [], your_offers = offers, messages = []\<rparr>"

section \<open>Evaluation on concrete inputs\<close>

lemma bitlen_numeral:
  "bitlen 0 = 0"
  "bitlen 1 = 1"
  "bitlen (Suc 0) = 1"
  "bitlen (numeral Num.One) = 1"
  "bitlen (numeral (Num.Bit0 k)) = 1 + bitlen (numeral k)"
  "bitlen (numeral (Num.Bit1 k)) = 1 + bitlen (numeral k)"
proof -
  show "bitlen 0 = 0" "bitlen 1 = 1" "bitlen (Suc 0) = 1" "bitlen (numeral Num.One) = 1"
    by (simp_all add: bitlen.simps)
  have "numeral (Num.Bit0 k) div (2::nat) = numeral k" by simp
  then show "bitlen (numeral (Num.Bit0 k)) = 1 + bitlen (numeral k)"
    by (subst bitlen.simps) simp
  have "numeral (Num.Bit1 k) div (2::nat) = numeral k" by simp
  then show "bitlen (numeral (Num.Bit1 k)) = 1 + bitlen (numeral k)"
    by (subst bitlen.simps) simp
qed

lemmas round_eval = round_to_double_def floor_log2_def bitlen_numeral round_half_even_def Let_def

lemma literals:
  "float_literal 110 100 = Finite False 4953959590107546 (-52)"
  "float_literal 90 100 = Finite False 8106479329266893 (-53)"
  "float_literal 108 100 = Finite False 4863887597560136 (-52)"
  "float_literal 58 100 = Finite False 5224175567749775 (-53)"
  "float_literal 40 100 = Finite False 7205759403792794 (-54)"
  "float_literal 80 100 = Finite False 7205759403792794 (-53)"
  "float_literal 105 100 = Finite False 4728779608739021 (-52)"
  "float_literal 85 100 = Finite False 7656119366529843 (-53)"
  "float_literal 107 100 = Finite False 4818851601286431 (-52)"
  "float_literal 88 100 = Finite False 7926335344172073 (-53)"
  "float_literal 2 1000 = Finite False 4611686018427388 (-61)"
  "float_literal 15 10 = Finite False 6755399441055744 (-52)"
  "float_literal 70 100 = Finite False 6305039478318694 (-53)"
  "float_literal 11 10 = Finite False 4953959590107546 (-52)"
  "float_literal 115 100 = Finite False 5179139571476070 (-52)"
  "float_literal 82 100 = Finite False 7385903388887613 (-53)"
  by (simp_all add: float_literal_def round_eval cong: let_weak_cong)

lemma ebind_Inl: "ebind (Inl err) f = Inl err"
  by (simp add: ebind_def)

lemma ebind_Inr: "ebind (Inr v) f = f v"
  by (simp add: ebind_def)

lemma ebind_weak_cong: "r = r' \<Longrightarrow> ebind r f = ebind r' f"
  by simp

lemma range_10: "range 10 = [0, 1, 2, 3, 4, 5, 6, 7, 8, 9]"
  by code_simp

lemmas num_eval = int_times_def float_of_int_def round_eval int_truediv_def
  float_times_int_def literals ebind_Inl ebind_Inr

lemmas str_eval = strip_def lower_def lower_char_def isspace_def char_of_def bit_0 bit_Suc_0_iff

lemmas buyer_eval = respond_to_seller_offer_def buyer_counter_def generate_opening_offer_def
  calculate_fair_price_def start_context_def alphonso_mangoes_def kesar_mangoes_def

lemmas run_eval = run_negotiation_test_def range_10 get_opening_price_def YourBuyerAgent_def
  round_body_def respond_to_buyer_def make_result_def percent_of_def

lemma fair_alphonso: "calculate_fair_price alphonso_mangoes = Inr 194400"
  by (simp add: buyer_eval str_eval num_eval cong: let_weak_cong ebind_weak_cong)

lemma fair_kesar: "calculate_fair_price kesar_mangoes = Inr 135000"
  by (simp add: buyer_eval str_eval num_eval cong: let_weak_cong ebind_weak_cong)

section \<open>Rounding error of the double operations\<close>

text \<open>
  A rounded result in the normal range differs from the exact value by at most a factor
  \<open>1 \<plusminus> 2^-53\<close>; \<open>int(i * c)\<close> therefore lies within \<open>1 \<plusminus> 2^-51\<close> of the exact
  product, before truncation, and is defined for every integer below \<open>2^1000\<close>.
\<close>

lemma bitlen_bounds: "0 < n \<Longrightarrow> 2 ^ (bitlen n - 1) \<le> n \<and> n < 2 ^ bitlen n"
proof (induction n rule: bitlen.induct)
  case (1 n)
  show ?case
  proof (cases "n div 2 = 0")
    case True
    with 1(2) have "n = 1" by presburger
    then show ?thesis by (simp add: bitlen.simps)
  next
    case False
    then have pos: "0 < n div 2" by simp
    from 1(2) have n0: "n \<noteq> 0" by simp
    have IH: "2 ^ (bitlen (n div 2) - 1) \<le> n div 2 \<and> n div 2 < 2 ^ bitlen (n div 2)"
      using 1(1) [OF n0 pos] .
    have bl: "bitlen n = Suc (bitlen (n div 2))"
      using n0 by (subst bitlen.simps) simp
    have bpos: "0 < bitlen (n div 2)"
      using pos by (subst bitlen.simps) simp
    then obtain k where k: "bitlen (n div 2) = Suc k" by (cases "bitlen (n div 2)") auto
    from IH k have "2 ^ k \<le> n div 2" "n div 2 < 2 ^ Suc k" by simp_all
    then have "2 * 2 ^ k \<le> n" "n < 2 * 2 ^ Suc k" by linarith+
    then show ?thesis using bl k by simp
  qed
qed

lemma round_half_even_error:
  assumes "0 < d"
  shows "\<bar>real (round_half_even n d) - real n / real d\<bar> \<le> 1 / 2"
proof -
  define q where "q = n div d"
  define r where "r = n mod d"
  have n: "n = q * d + r" by (simp add: q_def r_def)
  have rd: "r < d" using assms by (simp add: r_def)
  have dpos: "0 < real d" using assms by simp
  have v: "real n / real d = real q + real r / real d"
    using dpos by (simp add: n field_simps)
  have cases: "round_half_even n d = q \<and> 2 * r \<le> d \<or> round_half_even n d = q + 1 \<and> d \<le> 2 * r"
    by (auto simp: round_half_even_def Let_def q_def r_def)
  then show ?thesis
  proof
    assume a: "round_half_even n d = q \<and> 2 * r \<le> d"
    then have "real r / real d \<le> 1 / 2" using dpos by (simp add: field_simps)
    moreover have "0 \<le> real r / real d" by simp
    ultimately show ?thesis using a v by simp
  next
    assume a: "round_half_even n d = q + 1 \<and> d \<le> 2 * r"
    then have "1 / 2 \<le> real r / real d" using dpos by (simp add: field_simps)
    moreover have "real r / real d < 1" using rd dpos by simp
    ultimately show ?thesis using a v by simp
  qed
qed

lemma two_powi_add: "(2::real) powi (a + b) = 2 powi a * 2 powi b"
  by (simp add: power_int_add)

lemma two_powi_diff: "(2::real) powi (a - b) = 2 powi a / 2 powi b"
  by (simp add: power_int_diff)

lemma two_powi_pos: "0 < (2::real) powi a"
  by (simp add: zero_less_power_int)

lemma two_powi_nat: "0 \<le> l \<Longrightarrow> (2::real) ^ nat l = 2 powi l"
  by (simp add: power_int_nonneg_exp)

lemma two_powi_mono: "a \<le> b \<Longrightarrow> (2::real) powi a \<le> 2 powi b"
  by (rule power_int_increasing) simp_all

lemma two_powi_less_cancel: "(2::real) powi a < 2 powi b \<Longrightarrow> a < b"
  by (meson not_less two_powi_mono)

lemma bitlen_real_bounds:
  assumes "0 < n"
  shows "\<exists>b::int. b = int (bitlen n) \<and> 2 powi (b - 1) \<le> real n \<and> real n < 2 powi b"
proof -
  from bitlen_bounds [OF assms] have a: "2 ^ (bitlen n - 1) \<le> n" and b: "n < 2 ^ bitlen n"
    by simp_all
  have pos: "0 < bitlen n" using assms by (subst bitlen.simps) simp
  then have e: "int (bitlen n) - 1 = int (bitlen n - 1)" by simp
  have "(2::real) powi (int (bitlen n) - 1) = 2 powi (int (bitlen n - 1))" by (simp only: e)
  also have "\<dots> = 2 ^ (bitlen n - 1)" by (rule power_int_of_nat)
  also have "\<dots> = real (2 ^ (bitlen n - 1))" by simp
  also have "\<dots> \<le> real n" using a by (rule iffD2 [OF of_nat_le_iff])
  finally have 1: "2 powi (int (bitlen n) - 1) \<le> real n" .
  have "real n < real (2 ^ bitlen n)" using b by (rule iffD2 [OF of_nat_less_iff])
  then have 2: "real n < 2 powi (int (bitlen n))" by simp
  from 1 2 show ?thesis by blast
qed

lemma floor_log2_test:
  assumes "0 < n" "0 < d"
  shows "(if 0 \<le> l then d * 2 ^ nat l \<le> n else d \<le> n * 2 ^ nat (- l))
         \<longleftrightarrow> 2 powi l \<le> real n / real d"
proof (cases "0 \<le> l")
  case True
  have "d * 2 ^ nat l \<le> n \<longleftrightarrow> real (d * 2 ^ nat l) \<le> real n" by (simp only: of_nat_le_iff)
  also have "real (d * 2 ^ nat l) = real d * 2 powi l"
    using True by (simp add: two_powi_nat)
  also have "real d * 2 powi l \<le> real n \<longleftrightarrow> 2 powi l \<le> real n / real d"
    using assms by (simp add: pos_le_divide_eq mult.commute)
  finally show ?thesis using True by simp
next
  case False
  then have nl: "0 \<le> - l" by simp
  have inv: "(2::real) powi (- l) * 2 powi l = 1"
    unfolding two_powi_add [symmetric] by simp
  have "d \<le> n * 2 ^ nat (- l) \<longleftrightarrow> real d \<le> real (n * 2 ^ nat (- l))" by (simp only: of_nat_le_iff)
  also have "real (n * 2 ^ nat (- l)) = real n * 2 powi (- l)"
    using nl by (simp add: two_powi_nat)
  also have "real d \<le> real n * 2 powi (- l) \<longleftrightarrow> real d * 2 powi l \<le> real n * 2 powi (- l) * 2 powi l"
    using two_powi_pos [of l] by simp
  also have "real n * 2 powi (- l) * 2 powi l = real n"
    using inv by (simp add: mult.assoc)
  also have "real d * 2 powi l \<le> real n \<longleftrightarrow> 2 powi l \<le> real n / real d"
    using assms by (simp add: pos_le_divide_eq mult.commute)
  finally show ?thesis using False by simp
qed

lemma floor_log2_bounds:
  assumes "0 < n" "0 < d"
  shows "2 powi (floor_log2 n d) \<le> real n / real d"
    and "real n / real d < 2 powi (floor_log2 n d + 1)"
proof -
  define v where "v = real n / real d"
  have dpos: "0 < real d" and npos: "0 < real n" using assms by simp_all
  from bitlen_real_bounds [OF assms(1)] obtain bn :: int
    where bn: "bn = int (bitlen n)" "2 powi (bn - 1) \<le> real n" "real n < 2 powi bn" by blast
  from bitlen_real_bounds [OF assms(2)] obtain bd :: int
    where bd: "bd = int (bitlen d)" "2 powi (bd - 1) \<le> real d" "real d < 2 powi bd" by blast
  define l where "l = bn - bd"
  have up: "v < 2 powi (l + 1)"
  proof -
    have "v < 2 powi bn / real d"
      unfolding v_def using bn(3) dpos by (simp add: divide_strict_right_mono)
    also have "\<dots> \<le> 2 powi bn / 2 powi (bd - 1)"
      using bd(2) two_powi_pos [of bn] two_powi_pos [of "bd - 1"]
      by (simp add: frac_le)
    also have "\<dots> = 2 powi (bn - (bd - 1))"
      by (rule two_powi_diff [symmetric])
    also have "bn - (bd - 1) = l + 1" unfolding l_def by simp
    finally show ?thesis .
  qed
  have lo: "2 powi (l - 1) < v"
  proof -
    have "l - 1 = (bn - 1) - bd" unfolding l_def by simp
    then have "(2::real) powi (l - 1) = 2 powi (bn - 1) / 2 powi bd"
      by (simp only: two_powi_diff)
    also have "\<dots> \<le> real n / 2 powi bd"
      using bn(2) two_powi_pos [of bd] by (simp add: divide_right_mono)
    also have "\<dots> < real n / real d"
      using bd(3) npos dpos by (simp add: divide_strict_left_mono)
    finally show ?thesis unfolding v_def .
  qed
  have test: "floor_log2 n d = (if 2 powi l \<le> v then l else l - 1)"
    unfolding floor_log2_def Let_def bn(1) [symmetric] bd(1) [symmetric] l_def [symmetric] v_def
    using floor_log2_test [OF assms, of l] by simp
  show "2 powi (floor_log2 n d) \<le> real n / real d"
    using test lo by (auto simp: v_def)
  show "real n / real d < 2 powi (floor_log2 n d + 1)"
    using test up by (auto simp: v_def)
qed

lemma round_to_double_normal:
  assumes "0 < n" "0 < d" and k: "k = floor_log2 n d" and range: "- 1022 \<le> k" "k \<le> 1022"
  shows "\<exists>m. round_to_double s n d = Finite s m (k - 52) \<and>
             \<bar>real m * 2 powi (k - 52) - real n / real d\<bar> \<le> 2 powi (k - 53)"
proof -
  define e where "e = k - 52"
  define v where "v = real n / real d"
  define m where "m = (if 0 \<le> e then round_half_even n (d * 2 ^ nat e)
                       else round_half_even (n * 2 ^ nat (- e)) d)"
  have emax: "max (floor_log2 n d - 52) (- 1074) = e"
    using range k by (simp add: e_def)
  have dpos: "0 < real d" using assms by simp
  have pe: "0 < (2::real) powi e" by (rule two_powi_pos)
  have err: "\<bar>real m - v / 2 powi e\<bar> \<le> 1 / 2"
  proof (cases "0 \<le> e")
    case True
    have "real n / real (d * 2 ^ nat e) = v / 2 powi e"
      using True by (simp add: v_def two_powi_nat)
    moreover have "0 < d * 2 ^ nat e" using assms by simp
    ultimately show ?thesis
      using round_half_even_error [of "d * 2 ^ nat e" n] True by (simp add: m_def)
  next
    case False
    then have ne: "0 \<le> - e" by simp
    have inv: "(2::real) powi (- e) = 1 / 2 powi e"
      by (simp add: power_int_minus_divide)
    have "real (n * 2 ^ nat (- e)) / real d = v / 2 powi e"
      using ne by (simp add: v_def two_powi_nat inv)
    then show ?thesis
      using round_half_even_error [OF assms(2), of "n * 2 ^ nat (- e)"] False by (simp add: m_def)
  qed
  have "\<bar>real m * 2 powi e - v\<bar> = \<bar>real m - v / 2 powi e\<bar> * 2 powi e"
  proof -
    have "real m * 2 powi e - v = (real m - v / 2 powi e) * 2 powi e"
      using pe by (simp add: field_simps)
    then show ?thesis using pe by (simp add: abs_mult)
  qed
  also have "\<dots> \<le> 1 / 2 * 2 powi e"
    using err pe by (simp add: mult_right_mono)
  also have "\<dots> = 2 powi (e - 1)"
    by (simp add: two_powi_diff)
  finally have bound: "\<bar>real m * 2 powi e - v\<bar> \<le> 2 powi (e - 1)" .
  have e1: "e - 1 = k - 53" by (simp add: e_def)
  have fin: "\<not> (971 < e \<or> (e = 971 \<and> 2 ^ 53 \<le> m))"
    using range by (simp add: e_def)
  have "round_to_double s n d = Finite s m e"
    using assms(1) fin unfolding round_to_double_def emax Let_def m_def [symmetric]
    by simp
  then show ?thesis using bound e1 by (auto simp: e_def v_def)
qed

lemma round_to_double_rel:
  assumes "0 < n" "0 < d"
    and lo: "2 powi (- 1022) \<le> real n / real d" and hi: "real n / real d < 2 powi 1023"
  shows "\<exists>m e. round_to_double s n d = Finite s m e \<and>
               \<bar>real m * 2 powi e - real n / real d\<bar> \<le> real n / real d / 2 ^ 53"
proof -
  define k where "k = floor_log2 n d"
  define v where "v = real n / real d"
  note fl = floor_log2_bounds [OF assms(1,2), folded k_def v_def]
  have "(2::real) powi k < 2 powi 1023" using fl(1) hi unfolding v_def by linarith
  then have k_hi: "k \<le> 1022" using two_powi_less_cancel [of k 1023] by simp
  have "(2::real) powi (- 1022) < 2 powi (k + 1)" using fl(2) lo unfolding v_def by linarith
  then have k_lo: "- 1022 \<le> k" using two_powi_less_cancel [of "- 1022" "k + 1"] by simp
  from round_to_double_normal [OF assms(1,2) k_def k_lo k_hi, of s]
  obtain m where m: "round_to_double s n d = Finite s m (k - 52)"
      "\<bar>real m * 2 powi (k - 52) - v\<bar> \<le> 2 powi (k - 53)"
    unfolding v_def by blast
  have "(2::real) powi (k - 53) = 2 powi k / 2 ^ 53"
    by (simp add: two_powi_diff)
  also have "\<dots> \<le> v / 2 ^ 53" using fl(1) by (simp add: divide_right_mono)
  finally have "\<bar>real m * 2 powi (k - 52) - v\<bar> \<le> v / 2 ^ 53" using m(2) by linarith
  then show ?thesis using m(1) unfolding v_def by blast
qed

lemma int_of_double_floor:
  "int_of_double (Finite False m e) = Inr \<lfloor>real m * 2 powi e\<rfloor>"
proof (cases "0 \<le> e")
  case True
  have "real m * 2 powi e = of_int (int m * 2 ^ nat e)"
    using True by (simp add: two_powi_nat)
  then have "\<lfloor>real m * 2 powi e\<rfloor> = int m * 2 ^ nat e"
    by (simp only: floor_of_int)
  then show ?thesis using True by simp
next
  case False
  then have ne: "0 \<le> - e" by simp
  have "(2::real) powi e = 1 / 2 powi (- e)" by (simp add: power_int_minus_divide)
  also have "\<dots> = 1 / 2 ^ nat (- e)" using ne by (simp add: two_powi_nat)
  finally have "real m * 2 powi e = of_int (int m) / of_int (2 ^ nat (- e))" by simp
  then have "\<lfloor>real m * 2 powi e\<rfloor> = int m div 2 ^ nat (- e)"
    by (simp only: floor_divide_of_int_eq)
  then show ?thesis using False by simp
qed

lemma int_of_double_mag:
  "int_of_double (Finite s m e) = Inr (if s then - \<lfloor>mag (Finite s m e)\<rfloor> else \<lfloor>mag (Finite s m e)\<rfloor>)"
proof -
  have key: "(if 0 \<le> e then int m * 2 ^ nat e else int m div 2 ^ nat (- e)) = \<lfloor>real m * 2 powi e\<rfloor>"
    using int_of_double_floor [of m e] by (simp add: Let_def)
  have "int_of_double (Finite s m e) =
        Inr (if s then - (if 0 \<le> e then int m * 2 ^ nat e else int m div 2 ^ nat (- e))
             else (if 0 \<le> e then int m * 2 ^ nat e else int m div 2 ^ nat (- e)))"
    by (simp add: Let_def)
  then show ?thesis by (simp only: key mag.simps)
qed

lemma round_to_double_zero: "round_to_double s 0 d = Finite s 0 0"
  by (simp add: round_to_double_def)

lemma float_of_int_rel:
  assumes "\<bar>i\<bar> < 2 ^ 1023"
  shows "\<exists>m e. float_of_int i = Inr (Finite (i < 0) m e) \<and>
               \<bar>real m * 2 powi e - \<bar>real_of_int i\<bar>\<bar> \<le> \<bar>real_of_int i\<bar> / 2 ^ 53"
proof (cases "i = 0")
  case True
  then show ?thesis by (simp add: float_of_int_def round_to_double_zero)
next
  case False
  define n where "n = nat \<bar>i\<bar>"
  have npos: "0 < n" using False by (simp add: n_def)
  have rn: "real n = \<bar>real_of_int i\<bar>" by (simp add: n_def)
  have "1 \<le> real n" using npos by simp
  then have lo: "2 powi (- 1022) \<le> real n / real (1::nat)"
    by (simp add: power_int_minus field_simps)
  have "\<bar>real_of_int i\<bar> < 2 ^ 1023"
  proof -
    have "real_of_int \<bar>i\<bar> < real_of_int (2 ^ 1023)" using assms by (simp only: of_int_less_iff)
    then show ?thesis by simp
  qed
  then have hi: "real n / real (1::nat) < 2 powi 1023" by (simp add: rn)
  from round_to_double_rel [OF npos _ lo hi, of "i < 0"]
  obtain m e where me: "round_to_double (i < 0) n 1 = Finite (i < 0) m e"
    "\<bar>real m * 2 powi e - real n / real (1::nat)\<bar> \<le> real n / real (1::nat) / 2 ^ 53"
    by auto
  have "float_of_int i = Inr (Finite (i < 0) m e)"
    using me(1) by (simp add: float_of_int_def n_def)
  then show ?thesis using me(2) by (auto simp: rn)
qed

lemma float_mul_rel:
  assumes zero_or_normal: "real m1 * 2 powi e1 * (real m2 * 2 powi e2) = 0 \<or>
      2 powi (- 1022) \<le> real m1 * 2 powi e1 * (real m2 * 2 powi e2) \<and>
      real m1 * 2 powi e1 * (real m2 * 2 powi e2) < 2 powi 1023"
  shows "\<exists>m e. float_mul (Finite s1 m1 e1) (Finite s2 m2 e2) = Finite (s1 \<noteq> s2) m e \<and>
     \<bar>real m * 2 powi e - real m1 * 2 powi e1 * (real m2 * 2 powi e2)\<bar>
       \<le> real m1 * 2 powi e1 * (real m2 * 2 powi e2) / 2 ^ 53"
proof -
  define v where "v = real m1 * 2 powi e1 * (real m2 * 2 powi e2)"
  define N where "N = (if 0 \<le> e1 + e2 then m1 * m2 * 2 ^ nat (e1 + e2) else m1 * m2)"
  define D where "D = (if 0 \<le> e1 + e2 then 1 else (2::nat) ^ nat (- (e1 + e2)))"
  have fm: "float_mul (Finite s1 m1 e1) (Finite s2 m2 e2) = round_to_double (s1 \<noteq> s2) N D"
    by (simp add: N_def D_def)
  have Dpos: "0 < D" by (simp add: D_def)
  have v_eq: "v = real (m1 * m2) * 2 powi (e1 + e2)"
    by (simp add: v_def two_powi_add)
  have ratio: "real N / real D = v"
  proof (cases "0 \<le> e1 + e2")
    case True
    then show ?thesis by (simp add: N_def D_def v_eq two_powi_nat)
  next
    case False
    then have ne: "0 \<le> - (e1 + e2)" by simp
    have "(2::real) powi (e1 + e2) = 1 / 2 powi (- (e1 + e2))"
      by (simp only: power_int_minus_divide [symmetric] minus_minus)
    also have "\<dots> = 1 / 2 ^ nat (- (e1 + e2))" using ne by (simp only: two_powi_nat)
    finally show ?thesis using False by (simp add: N_def D_def v_eq)
  qed
  show ?thesis
  proof (cases "v = 0")
    case True
    then have "m1 * m2 = 0" using v_eq by simp
    then have "N = 0" by (auto simp: N_def)
    then show ?thesis using True fm by (simp add: round_to_double_zero v_def [symmetric])
  next
    case False
    then have nz: "N \<noteq> 0" using ratio by auto
    then have Npos: "0 < N" by simp
    from False zero_or_normal have lo: "2 powi (- 1022) \<le> real N / real D"
      and hi: "real N / real D < 2 powi 1023"
      unfolding ratio v_def by auto
    from round_to_double_rel [OF Npos Dpos lo hi, of "s1 \<noteq> s2"] show ?thesis
      unfolding fm ratio by (simp add: v_def)
  qed
qed

lemma rel_error_square:
  fixes x a p w u :: real
  assumes x: "0 \<le> x" and u: "0 \<le> u" "u \<le> 1 / 4"
    and p: "\<bar>p - x\<bar> \<le> x * u" and w: "\<bar>w - p\<bar> \<le> p * u"
  shows "x * (1 - 4 * u) \<le> w" and "w \<le> x * (1 + 4 * u)"
proof -
  have p_hi: "p \<le> x * (1 + u)" and p_lo: "x * (1 - u) \<le> p"
    using p by (simp_all add: algebra_simps abs_le_iff)
  have "0 \<le> x * (1 - u)" using x u by (intro mult_nonneg_nonneg) simp_all
  then have p0: "0 \<le> p" using p_lo by linarith
  have w_hi: "w \<le> p * (1 + u)" and w_lo: "p * (1 - u) \<le> w"
    using w by (simp_all add: algebra_simps abs_le_iff)
  have "p * (1 + u) \<le> x * (1 + u) * (1 + u)"
    using p_hi u by (intro mult_right_mono) simp_all
  also have "\<dots> = x * ((1 + u) * (1 + u))" by simp
  also have "\<dots> \<le> x * (1 + 4 * u)"
  proof (rule mult_left_mono [OF _ x])
    have "u * u \<le> 1 / 4 * u" using u by (intro mult_right_mono) simp_all
    then show "(1 + u) * (1 + u) \<le> 1 + 4 * u" using u by (simp add: algebra_simps)
  qed
  finally show "w \<le> x * (1 + 4 * u)" using w_hi by linarith
  have "x * (1 - 4 * u) \<le> x * ((1 - u) * (1 - u))"
  proof (rule mult_left_mono [OF _ x])
    have "0 \<le> u * u" using u by simp
    then show "1 - 4 * u \<le> (1 - u) * (1 - u)" using u by (simp add: algebra_simps)
  qed
  also have "\<dots> = x * (1 - u) * (1 - u)" by simp
  also have "\<dots> \<le> p * (1 - u)"
    using p_lo u by (intro mult_right_mono) simp_all
  finally show "x * (1 - 4 * u) \<le> w" using w_lo by linarith
qed

lemma int_times_rel:
  assumes clo: "1 / 2 ^ 60 \<le> mag (Finite False M E)" and chi: "mag (Finite False M E) \<le> 2"
    and i: "\<bar>i\<bar> < 2 ^ 1000"
  shows "\<exists>w. int_times i (Finite False M E) = Inr (if i < 0 then - \<lfloor>w\<rfloor> else \<lfloor>w\<rfloor>) \<and>
             \<bar>real_of_int i\<bar> * mag (Finite False M E) * (1 - 1 / 2 ^ 51) \<le> w \<and>
             w \<le> \<bar>real_of_int i\<bar> * mag (Finite False M E) * (1 + 1 / 2 ^ 51)"
proof -
  define cv where "cv = real M * 2 powi E"
  define I where "I = \<bar>real_of_int i\<bar>"
  define u :: real where "u = 1 / 2 ^ 53"
  have cv: "mag (Finite False M E) = cv" by (simp add: cv_def)
  have cv_lo: "1 / 2 ^ 60 \<le> cv" and cv_hi: "cv \<le> 2" using clo chi by (simp_all only: cv)
  have "(0::real) \<le> 1 / 2 ^ 60" by simp
  then have cv0: "0 \<le> cv" using cv_lo by linarith
  have I0: "0 \<le> I" by (simp add: I_def)
  have I_hi: "I < 2 ^ 1000"
  proof -
    have "real_of_int \<bar>i\<bar> < real_of_int (2 ^ 1000)" using i by (simp only: of_int_less_iff)
    then show ?thesis by (simp add: I_def)
  qed
  have u0: "0 \<le> u" "u \<le> 1 / 4" by (simp_all add: u_def)
  have "(2::int) ^ 1000 \<le> 2 ^ 1023" by (rule power_increasing) simp_all
  then have i': "\<bar>i\<bar> < 2 ^ 1023" using i by linarith
  from float_of_int_rel [OF i'] obtain m e
    where fi: "float_of_int i = Inr (Finite (i < 0) m e)"
      and a_err: "\<bar>real m * 2 powi e - I\<bar> \<le> I / 2 ^ 53"
    unfolding I_def by blast
  define a where "a = real m * 2 powi e"
  have a_err': "\<bar>a - I\<bar> \<le> I * u" using a_err by (simp add: a_def u_def)
  have a_hi: "a \<le> I * (1 + u)" and a_lo: "I * (1 - u) \<le> a"
    using a_err' by (simp_all add: algebra_simps abs_le_iff)
  define p where "p = a * cv"
  have p_err: "\<bar>p - I * cv\<bar> \<le> I * cv * u"
  proof -
    have "\<bar>p - I * cv\<bar> = \<bar>a - I\<bar> * cv"
      using cv0 by (simp add: p_def abs_mult left_diff_distrib [symmetric])
    also have "\<dots> \<le> I * u * cv" using a_err' cv0 by (rule mult_right_mono)
    finally show ?thesis by (simp add: mult_ac)
  qed
  have zn: "p = 0 \<or> 2 powi (- 1022) \<le> p \<and> p < 2 powi 1023"
  proof (cases "i = 0")
    case True
    then have "I = 0" by (simp add: I_def)
    then have "a = 0" using a_err' by simp
    then show ?thesis by (simp add: p_def)
  next
    case False
    then have "1 \<le> \<bar>i\<bar>" by simp
    then have "real_of_int 1 \<le> real_of_int \<bar>i\<bar>" by (simp only: of_int_le_iff)
    then have I1: "1 \<le> I" by (simp add: I_def)
    have "1 / 2 \<le> 1 - u" by (simp add: u_def)
    then have "1 * (1 / 2) \<le> I * (1 - u)" using I1
      by (intro mult_mono) simp_all
    then have a_half: "1 / 2 \<le> a" using a_lo by linarith
    have "1 / 2 * (1 / 2 ^ 60) \<le> a * cv"
      using a_half cv_lo by (intro mult_mono) simp_all
    then have "1 / 2 ^ 61 \<le> p" by (simp add: p_def)
    moreover have "(2::real) powi (- 1022) \<le> 1 / 2 ^ 61"
    proof -
      have "(2::real) powi (- 1022) \<le> 2 powi (- 61)" by (rule two_powi_mono) simp
      then show ?thesis by (simp add: power_int_minus_divide)
    qed
    ultimately have lo: "2 powi (- 1022) \<le> p" by linarith
    have "a \<le> I * 2"
    proof -
      have "I * (1 + u) \<le> I * 2" using I0 by (intro mult_left_mono) (simp_all add: u_def)
      then show ?thesis using a_hi by linarith
    qed
    then have "a < 2 ^ 1000 * 2" using I_hi by linarith
    moreover have "0 \<le> a" using a_half by linarith
    ultimately have "a * cv \<le> 2 ^ 1000 * 2 * 2"
      using cv_hi cv0 by (intro mult_mono) simp_all
    also have "(2::real) ^ 1000 * 2 * 2 = 2 ^ 1002" by simp
    also have "(2::real) ^ 1002 < 2 ^ 1023" by (rule power_strict_increasing) simp_all
    finally have "p < 2 powi 1023" by (simp add: p_def)
    then show ?thesis using lo by blast
  qed
  from float_mul_rel [of m e M E "i < 0" False] zn
  obtain m' e' where fm: "float_mul (Finite (i < 0) m e) (Finite False M E) = Finite ((i < 0) \<noteq> False) m' e'"
    and w_err: "\<bar>real m' * 2 powi e' - p\<bar> \<le> p / 2 ^ 53"
    unfolding p_def a_def cv_def by blast
  define w where "w = real m' * 2 powi e'"
  have w_err': "\<bar>w - p\<bar> \<le> p * u" using w_err by (simp add: w_def u_def)
  have x0: "0 \<le> I * cv" using I0 cv0 by simp
  note sq = rel_error_square [OF x0 u0 p_err w_err']
  have u4: "4 * u = 1 / 2 ^ 51" by (simp add: u_def)
  have "int_times i (Finite False M E) = int_of_double (Finite (i < 0) m' e')"
    using fi fm by (simp add: int_times_def)
  also have "\<dots> = Inr (if i < 0 then - \<lfloor>w\<rfloor> else \<lfloor>w\<rfloor>)"
    by (simp only: int_of_double_mag mag.simps w_def)
  finally show ?thesis using sq unfolding u4 cv I_def [symmetric] by blast
qed

lemma int_times_nonneg:
  assumes c: "c = Finite False M E"
    and clo: "1 / 2 ^ 60 \<le> real M * 2 powi E" and chi: "real M * 2 powi E \<le> 2"
    and i: "0 \<le> i" "i < 2 ^ 1000"
  shows "\<exists>r. int_times i c = Inr r \<and> 0 \<le> r \<and>
             real_of_int r \<le> real_of_int i * (real M * 2 powi E) * (1 + 1 / 2 ^ 51) \<and>
             real_of_int i * (real M * 2 powi E) * (1 - 1 / 2 ^ 51) < real_of_int r + 1"
proof -
  have abs_i: "\<bar>i\<bar> < 2 ^ 1000" using i by simp
  from int_times_rel [of M E i] clo chi abs_i obtain w
    where r: "int_times i (Finite False M E) = Inr (if i < 0 then - \<lfloor>w\<rfloor> else \<lfloor>w\<rfloor>)"
      and lo: "\<bar>real_of_int i\<bar> * (real M * 2 powi E) * (1 - 1 / 2 ^ 51) \<le> w"
      and hi: "w \<le> \<bar>real_of_int i\<bar> * (real M * 2 powi E) * (1 + 1 / 2 ^ 51)"
    by (auto simp only: mag.simps)
  have ai: "\<bar>real_of_int i\<bar> = real_of_int i" using i by simp
  have "(0::real) \<le> 1 / 2 ^ 60" by simp
  then have cv0: "0 \<le> real M * 2 powi E" using clo by linarith
  have "0 \<le> real_of_int i * (real M * 2 powi E) * (1 - 1 / 2 ^ 51)"
    using i cv0 by (intro mult_nonneg_nonneg) simp_all
  then have w0: "0 \<le> w" using lo ai by linarith
  have res: "int_times i c = Inr \<lfloor>w\<rfloor>" using r i c by simp
  have "0 \<le> \<lfloor>w\<rfloor>" using w0 by simp
  moreover have "real_of_int \<lfloor>w\<rfloor> \<le> w" by (rule of_int_floor_le)
  moreover have "w < real_of_int \<lfloor>w\<rfloor> + 1" by linarith
  ultimately show ?thesis using res lo hi ai
    by (intro exI [of _ "\<lfloor>w\<rfloor>"]) (simp, linarith)
qed

lemma int_times_total:
  assumes c: "c = Finite False M E"
    and clo: "1 / 2 ^ 60 \<le> real M * 2 powi E" and chi: "real M * 2 powi E \<le> 2"
    and i: "\<bar>i\<bar> < 2 ^ 1000"
  shows "\<exists>r. int_times i c = Inr r \<and> \<bar>r\<bar> \<le> 3 * \<bar>i\<bar>"
proof -
  from int_times_rel [of M E i] clo chi i obtain w
    where r: "int_times i (Finite False M E) = Inr (if i < 0 then - \<lfloor>w\<rfloor> else \<lfloor>w\<rfloor>)"
      and lo: "\<bar>real_of_int i\<bar> * (real M * 2 powi E) * (1 - 1 / 2 ^ 51) \<le> w"
      and hi: "w \<le> \<bar>real_of_int i\<bar> * (real M * 2 powi E) * (1 + 1 / 2 ^ 51)"
    by (auto simp only: mag.simps)
  define I where "I = \<bar>real_of_int i\<bar>"
  have I0: "0 \<le> I" by (simp add: I_def)
  have "(0::real) \<le> 1 / 2 ^ 60" by simp
  then have cv0: "0 \<le> real M * 2 powi E" using clo by linarith
  have "0 \<le> I * (real M * 2 powi E) * (1 - 1 / 2 ^ 51)"
    using I0 cv0 by (intro mult_nonneg_nonneg) simp_all
  then have w0: "0 \<le> w" using lo [folded I_def] by linarith
  have "I * (real M * 2 powi E) \<le> I * 2" using chi I0 by (rule mult_left_mono)
  then have "I * (real M * 2 powi E) * (1 + 1 / 2 ^ 51) \<le> I * 2 * (1 + 1 / 2 ^ 51)"
    by (rule mult_right_mono) simp
  also have "\<dots> \<le> I * 3" using I0 by (simp add: mult_left_mono)
  finally have "w \<le> I * 3" using hi [folded I_def] by linarith
  moreover have "real_of_int \<lfloor>w\<rfloor> \<le> w" by (rule of_int_floor_le)
  ultimately have "real_of_int \<lfloor>w\<rfloor> \<le> I * 3" by linarith
  then have "real_of_int \<lfloor>w\<rfloor> \<le> real_of_int (3 * \<bar>i\<bar>)" by (simp add: I_def)
  then have "\<lfloor>w\<rfloor> \<le> 3 * \<bar>i\<bar>" by (simp only: of_int_le_iff)
  moreover have "0 \<le> \<lfloor>w\<rfloor>" using w0 by simp
  ultimately have "\<bar>if i < 0 then - \<lfloor>w\<rfloor> else \<lfloor>w\<rfloor>\<bar> \<le> 3 * \<bar>i\<bar>"
    by (cases "i < 0") auto
  then show ?thesis using r c by blast
qed

section \<open>Substring tests after \<open>strip\<close> and \<open>lower\<close>\<close>

lemma str_in_sublist: "str_in w s = sublist w s"
  by (induction s) (simp_all add: sublist_Cons_right)

lemma isspace_lower_char: "isspace (lower_char c) = isspace c"
proof -
  define n where "n = (of_char c :: nat)"
  have c: "(of_char c :: nat) = n" by (simp add: n_def)
  have n: "n < 256" unfolding n_def by simp
  show ?thesis
  proof (cases "(65 \<le> n \<and> n \<le> 90) \<or> (192 \<le> n \<and> n \<le> 222 \<and> n \<noteq> 215)")
    case True
    then have lc: "lower_char c = char_of (n + 32)" unfolding lower_char_def Let_def c by simp
    have "(n + 32) mod 256 = n + 32" using True by auto
    then have l: "(of_char (lower_char c) :: nat) = n + 32" by (simp add: lc of_char_of)
    show ?thesis using True by (auto simp add: isspace_def l c)
  next
    case False
    then have "lower_char c = c" unfolding lower_char_def Let_def c by auto
    then show ?thesis by simp
  qed
qed

lemma lower_strip: "lower (strip s) = strip (lower s)"
proof -
  have comp: "isspace \<circ> lower_char = isspace" by (rule ext) (simp add: isspace_lower_char)
  show ?thesis
    by (simp add: lower_def strip_def rev_map dropWhile_map comp)
qed

lemma dropWhile_keep:
  assumes "w \<noteq> []" "\<not> P (hd w)"
  shows "dropWhile P (ps @ w @ ss) = dropWhile P ps @ w @ ss"
proof (induction ps)
  case Nil
  from assms obtain x xs where "w = x # xs" "\<not> P x" by (cases w) auto
  then show ?case by simp
next
  case (Cons p ps)
  then show ?case by simp
qed

lemma sublist_strip:
  assumes "w \<noteq> []" "\<not> isspace (hd w)" "\<not> isspace (last w)" "sublist w s"
  shows "sublist w (strip s)"
proof -
  from assms(4) obtain ps ss where s: "s = ps @ w @ ss" by (auto simp: sublist_def)
  define ps' where "ps' = dropWhile isspace ps"
  have 1: "dropWhile isspace s = ps' @ w @ ss"
    unfolding s ps'_def using assms(1,2) by (rule dropWhile_keep [where P = isspace])
  have rw: "rev w \<noteq> []" "\<not> isspace (hd (rev w))"
    using assms(1,3) by (simp_all add: hd_rev)
  have "rev (dropWhile isspace s) = rev ss @ rev w @ rev ps'" by (simp add: 1)
  then have "dropWhile isspace (rev (dropWhile isspace s)) = dropWhile isspace (rev ss) @ rev w @ rev ps'"
    using dropWhile_keep [where P = isspace and w = "rev w" and ps = "rev ss" and ss = "rev ps'"] rw
    by simp
  then have "strip s = ps' @ w @ rev (dropWhile isspace (rev ss))"
    by (simp add: strip_def)
  then show ?thesis by (auto simp: sublist_def)
qed

lemma contains_word:
  assumes "w \<noteq> []" "\<not> isspace (hd w)" "\<not> isspace (last w)" "sublist w (lower s)"
  shows "str_in w (lower (strip s))"
  unfolding str_in_sublist lower_strip by (rule sublist_strip [OF assms])

section \<open>The budget invariant\<close>

text \<open>
  C2 (the opening offer never exceeds the budget). The floor of 40 percent of the base
  price is applied after the clamp to the budget, so a budget below the floor is
  exceeded: with a budget of 50000 the buyer opens at 72000 for the Alphonso product.
\<close>

theorem opening_offer_exceeds_budget:
  "generate_opening_offer (start_context alphonso_mangoes 50000 1 []) =
     Inr (72000, BuyerOpening 72000)"
  by (simp add: buyer_eval str_eval num_eval cong: let_weak_cong ebind_weak_cong)

text \<open>
  C1 (no price returned by \<open>respond_to_seller_offer\<close> exceeds the budget). The step
  that forces every counter above the buyer's last offer comes after the clamp to
  \<open>max_willing\<close>: once the last offer has reached the budget, the counter is the budget
  plus the step. With a budget of 100000 and a last offer of 100000 the buyer answers
  100270.
\<close>

theorem respond_exceeds_budget:
  "respond_to_seller_offer (start_context kesar_mangoes 100000 4 [78300, 98399, 100000])
       122999 (SellerCounter 122999) =
     Inr (ONGOING, 100270, BuyerCeiling 100270)"
  by (simp add: buyer_eval str_eval num_eval cong: let_weak_cong ebind_weak_cong)

section \<open>Scenario 1: the opening offer for Alphonso mangoes\<close>

lemma grade_A: "lower (strip ''A'') = ''a''"
  by (simp add: str_eval)

lemma word_ratnagiri: "''ratnagiri'' \<noteq> []" "\<not> isspace (hd ''ratnagiri'')" "\<not> isspace (last ''ratnagiri'')"
  by (simp_all add: isspace_def)

lemma word_alphonso: "''alphonso'' \<noteq> []" "\<not> isspace (hd ''alphonso'')" "\<not> isspace (last ''alphonso'')"
  by (simp_all add: isspace_def)

lemma word_export: "''export'' \<noteq> []" "\<not> isspace (hd ''export'')" "\<not> isspace (last ''export'')"
  by (simp_all add: isspace_def)

lemma scenario_1_numbers:
  "int_times 180000 (float_literal 108 100) = Inr 194400"
  "int_times 194400 (float_literal 58 100) = Inr 112751"
  "int_times 180000 (float_literal 40 100) = Inr 72000"
  by (simp_all add: num_eval cong: let_weak_cong)

text \<open>
  C7, as amended. For a product with base market price 180000, grade \<open>A\<close>, an origin
  containing "ratnagiri" and a name containing "alphonso" (in any letter case), the fair
  price is 194400, and for every budget of at least 72000 the opening offer is the
  smaller of 112751 and the budget. The value 112751 is \<open>int(194400 * 0.58)\<close> in double
  arithmetic: the double nearest to 0.58 is \<open>5224175567749775 / 2^53\<close>, below 0.58, the
  exact product \<open>112751.99999999999223\<close> is rounded to the double \<open>112752 - 2^-36\<close>, and
  the truncation gives 112751.
\<close>

theorem scenario_1_opening:
  assumes "base_market_price (product c) = 180000"
    and "quality_grade (product c) = ''A''"
    and "sublist ''ratnagiri'' (lower (origin (product c)))"
    and "sublist ''alphonso'' (lower (name (product c)))"
  shows "calculate_fair_price (product c) = Inr 194400 \<and>
         (112751 \<le> your_budget c \<longrightarrow>
            generate_opening_offer c = Inr (112751, BuyerOpening 112751)) \<and>
         (72000 \<le> your_budget c \<and> your_budget c \<le> 112751 \<longrightarrow>
            generate_opening_offer c = Inr (your_budget c, BuyerOpening (your_budget c)))"
proof -
  have o: "str_in ''ratnagiri'' (lower (strip (origin (product c))))"
    by (rule contains_word [OF word_ratnagiri assms(3)])
  have n: "str_in ''alphonso'' (lower (strip (name (product c))))"
    by (rule contains_word [OF word_alphonso assms(4)])
  have fair: "calculate_fair_price (product c) = Inr 194400"
    using o n by (simp add: calculate_fair_price_def assms(1,2) grade_A scenario_1_numbers ebind_Inr)
  have "generate_opening_offer c =
        Inr (max (min 112751 (your_budget c)) 72000, BuyerOpening (max (min 112751 (your_budget c)) 72000))"
    by (simp add: generate_opening_offer_def fair assms(1) scenario_1_numbers ebind_Inr Let_def)
  then show ?thesis using fair by (auto simp: min_def max_def)
qed

lemma sublist_eval: "sublist ''ratnagiri'' (lower ''Ratnagiri'')" "sublist ''alphonso'' (lower ''Alphonso Mangoes'')"
  by (simp_all add: str_in_sublist [symmetric] str_eval)

theorem scenario_1_opening_witness:
  "calculate_fair_price alphonso_mangoes = Inr 194400 \<and>
   generate_opening_offer (start_context alphonso_mangoes 180000 1 []) = Inr (112751, BuyerOpening 112751) \<and>
   generate_opening_offer (start_context alphonso_mangoes 100000 1 []) = Inr (100000, BuyerOpening 100000)"
  using scenario_1_opening [of "start_context alphonso_mangoes 180000 1 []"]
        scenario_1_opening [of "start_context alphonso_mangoes 100000 1 []"]
  by (simp add: start_context_def alphonso_mangoes_def sublist_eval)

text \<open>
  C7 as the specification states it fails: the opening offer for a budget of 180000 is
  112751, not 112752.
\<close>

theorem scenario_1_opening_is_not_112752:
  "generate_opening_offer (start_context alphonso_mangoes 180000 1 []) = Inr (112751, BuyerOpening 112751)"
  by (simp add: buyer_eval str_eval num_eval cong: let_weak_cong ebind_weak_cong)

end
